theory Spec2Isabelle
  imports Main "HOL-Library.Sublist"
begin

section \<open>String primitives used by \<open>peek_reader.py\<close>\<close>

text \<open>
  Python strings are modelled as \<open>string\<close> (lists of 8-bit characters). The functions
  below are the methods of \<open>str\<close> that the source calls, for the arguments it passes.
\<close>

text \<open>\<open>s.removesuffix(suf)\<close>: drops \<open>suf\<close> from the end of \<open>s\<close> when \<open>suf\<close> is
  non-empty and \<open>s\<close> ends with it, and returns \<open>s\<close> otherwise.\<close>

definition removesuffix :: "string \<Rightarrow> string \<Rightarrow> string" where
  "removesuffix suf s =
     (if suf \<noteq> [] \<and> suffix suf s then take (length s - length suf) s else s)"

text \<open>\<open>s.split(sep)\<close> for a one-character separator: the pieces between the
  separators, empty pieces included; the empty string gives one empty piece.\<close>

fun str_split :: "char \<Rightarrow> string \<Rightarrow> string list" where
  "str_split sep [] = [[]]"
| "str_split sep (c # cs) =
     (if c = sep then [] # str_split sep cs
      else (case str_split sep cs of
              [] \<Rightarrow> [[c]]
            | p # ps \<Rightarrow> (c # p) # ps))"

text \<open>\<open>sep.join(xs)\<close>.\<close>

fun join :: "string \<Rightarrow> string list \<Rightarrow> string" where
  "join sep [] = []"
| "join sep [x] = x"
| "join sep (x # y # ys) = x @ sep @ join sep (y # ys)"

text \<open>\<open>str(n)\<close> for a non-negative integer, as the f-string of \<open>render_imports\<close>
  formats the counter.\<close>

definition digit_char :: "nat \<Rightarrow> char" where
  "digit_char d = ''0123456789'' ! d"

fun str_of_nat :: "nat \<Rightarrow> string" where
  "str_of_nat n =
     (if n < 10 then [digit_char n] else str_of_nat (n div 10) @ [digit_char (n mod 10)])"

declare str_of_nat.simps [simp del]

section \<open>Errors\<close>

text \<open>The exceptions the modelled functions can raise: the two \<open>ValueError\<close>s of the
  source, with their messages' arguments, and the \<open>IndexError\<close> of an index into an
  empty list.\<close>

datatype error =
    CannotParseAddress string
  | ZeroLengthDependency
  | IndexError

section \<open>RenameMap\<close>

text \<open>
  The dataclass \<open>RenameMap\<close>. The callable \<open>gen_name\<close> takes no argument and returns a
  new name on each call; it is modelled by the sequence of names it returns, indexed by
  the number of calls made so far, which the field \<open>calls\<close> keeps. The dictionary
  \<open>_map\<close> is the field \<open>rmap\<close>.
\<close>

record RenameMap =
  gen_name :: "nat \<Rightarrow> string"
  rmap :: "string \<rightharpoonup> string"
  calls :: nat

text \<open>\<open>RenameMap()\<close> with a given name generator: an empty dictionary.\<close>

definition new_RenameMap :: "(nat \<Rightarrow> string) \<Rightarrow> RenameMap" where
  "new_RenameMap gen = \<lparr>gen_name = gen, rmap = Map.empty, calls = 0\<rparr>"

definition assign_name :: "string \<Rightarrow> RenameMap \<Rightarrow> string \<times> RenameMap" where
  "assign_name key rm =
     (case rmap rm key of
        Some v \<Rightarrow> (v, rm)
      | None \<Rightarrow>
          (let v = gen_name rm (calls rm)
           in (v, rm\<lparr>rmap := (rmap rm)(key \<mapsto> v), calls := Suc (calls rm)\<rparr>)))"

fun assign_many :: "string list \<Rightarrow> RenameMap \<Rightarrow> string list \<times> RenameMap" where
  "assign_many [] rm = ([], rm)"
| "assign_many (k # ks) rm =
     (let (v, rm1) = assign_name k rm;
          (vs, rm2) = assign_many ks rm1
      in (v # vs, rm2))"

section \<open>Module path renamer\<close>

text \<open>\<open>path.removesuffix(".py").split("/")\<close>, the decomposition that both
  \<open>rename_python_module\<close> and \<open>render_imports\<close> apply.\<close>

definition path_parts :: "string \<Rightarrow> string list" where
  "path_parts p = str_split (CHR ''/'') (removesuffix ''.py'' p)"

text \<open>\<open>rename_python_module\<close>. The index \<open>path_parts[-1]\<close> raises \<open>IndexError\<close> on an
  empty list; the model keeps that branch.\<close>

definition rename_python_module :: "string \<Rightarrow> RenameMap \<Rightarrow> error + (string \<times> RenameMap)" where
  "rename_python_module p rm =
     (let parts = path_parts p in
      if parts = [] then Inl IndexError
      else if last parts \<in> {''__init__'', ''__main__''} then
        (let (renamed, rm') = assign_many (butlast parts) rm
         in Inr (join ''/'' (renamed @ [last parts]) @ ''.py'', rm'))
      else
        (let (renamed, rm') = assign_many parts rm
         in Inr (join ''/'' renamed @ ''.py'', rm')))"

text \<open>The list comprehension \<open>[rename_python_module(x, rename_map) for x in inferred_deps]\<close>
  of \<open>handle_python_module\<close>: the paths are renamed from left to right through the one
  map, and the first exception ends the loop.\<close>

fun renamed_deps :: "string list \<Rightarrow> RenameMap \<Rightarrow> error + (string list \<times> RenameMap)" where
  "renamed_deps [] rm = Inr ([], rm)"
| "renamed_deps (x # xs) rm =
     (case rename_python_module x rm of
        Inl e \<Rightarrow> Inl e
      | Inr (y, rm1) \<Rightarrow>
          (case renamed_deps xs rm1 of
             Inl e \<Rightarrow> Inl e
           | Inr (ys, rm2) \<Rightarrow> Inr (y # ys, rm2)))"

section \<open>Address\<close>

record Address =
  path :: string
  name :: string
  subtarget :: string

text \<open>\<open>s.rsplit("/", 1)[-1]\<close>: what follows the last slash, or all of \<open>s\<close>.\<close>

definition last_path_part :: "string \<Rightarrow> string" where
  "last_path_part s = rev (takeWhile (\<lambda>c. c \<noteq> CHR ''/'') (rev s))"

text \<open>
  \<open>capture_pattern.match(s)\<close>. The pattern is
  \<^verbatim>\<open>(?://)?(?P<path>[^:#]+)(?::(?P<name>[^:#]+))?(?:\#(?P<subtarget>[^:#]+))?\<close>,
  matched at the start of \<open>s\<close>, not necessarily up to its end.
  \<^item> \<open>addr_char\<close> is the class \<open>[^:#]\<close>.
  \<^item> The leading group takes \<open>//\<close> when a path character follows it; when none does,
    the matcher backtracks and the slashes become part of the path.
  \<^item> The path is the longest run of path characters; the match fails when it is empty.
  \<^item> \<open>opt_group\<close> is one of the two optional trailing groups: a separator followed by
    the longest non-empty run of path characters, or nothing (the group is then \<open>None\<close>
    and no input is consumed). Since both groups are optional, no later failure makes
    the matcher revisit an earlier choice.
\<close>

definition addr_char :: "char \<Rightarrow> bool" where
  "addr_char c = (c \<noteq> CHR '':'' \<and> c \<noteq> CHR ''#'')"

fun opt_group :: "char \<Rightarrow> string \<Rightarrow> string option \<times> string" where
  "opt_group sep [] = (None, [])"
| "opt_group sep (c # cs) =
     (if c = sep \<and> takeWhile addr_char cs \<noteq> []
      then (Some (takeWhile addr_char cs), dropWhile addr_char cs)
      else (None, c # cs))"

definition capture_pattern_match :: "string \<Rightarrow> (string \<times> string option \<times> string option) option" where
  "capture_pattern_match s =
     (let s1 = (if take 2 s = ''//'' \<and> takeWhile addr_char (drop 2 s) \<noteq> [] then drop 2 s else s);
          p = takeWhile addr_char s1
      in if p = [] then None
         else (let (n, r2) = opt_group (CHR '':'') (dropWhile addr_char s1);
                   (sub, r3) = opt_group (CHR ''#'') r2
               in Some (p, n, sub)))"

text \<open>\<open>Address.from_str\<close>. \<open>not name\<close> holds for \<open>None\<close> and for the empty string.\<close>

definition from_str :: "string \<Rightarrow> error + Address" where
  "from_str s =
     (case capture_pattern_match s of
        None \<Rightarrow> Inl (CannotParseAddress s)
      | Some (p, n, sub) \<Rightarrow>
          Inr \<lparr>path = p,
               name = (case n of
                         None \<Rightarrow> []
                       | Some n' \<Rightarrow> if n' = [] \<or> n' = last_path_part p then [] else n'),
               subtarget = (case sub of None \<Rightarrow> [] | Some sub' \<Rightarrow> sub')\<rparr>)"

text \<open>\<open>Address.__str__\<close>.\<close>

definition Address_str :: "Address \<Rightarrow> string" where
  "Address_str a =
     (let p = (if path a = [] then ''//'' else path a);
          n = (if name a = [] then last_path_part (path a) else name a);
          sub = (if subtarget a \<noteq> [] then ''#'' @ subtarget a else [])
      in p @ '':'' @ n @ sub)"

text \<open>Parse, then serialize.\<close>

definition reserialize :: "string \<Rightarrow> error + string" where
  "reserialize s = (case from_str s of Inl e \<Rightarrow> Inl e | Inr a \<Rightarrow> Inr (Address_str a))"

section \<open>Targets\<close>

text \<open>\<open>TargetInfo\<close> and \<open>TargetWithContent\<close>; the type of the \<open>other\<close> mapping is a
  parameter, since nothing here reads it.\<close>

record 'o TargetInfo =
  address :: Address
  target_type :: string
  dependencies :: "string list"
  dependencies_raw :: "string list"
  other :: 'o

record 'o TargetWithContent = "'o TargetInfo" +
  content :: string

section \<open>Import synthesis\<close>

text \<open>The two f-strings of \<open>render_imports\<close>.\<close>

definition import_line :: "string \<Rightarrow> string \<Rightarrow> string \<Rightarrow> string" where
  "import_line from' import' alias =
     (if from' \<noteq> [] then ''from '' @ from' @ '' import '' @ import' @ '' as '' @ alias
      else ''import '' @ import' @ '' as '' @ alias)"

text \<open>
  The loop of \<open>render_imports\<close>, with the \<open>Counter\<close> \<open>seen_imports\<close> as a function into
  \<open>nat\<close> (a missing key counts 0). The generator is consumed to its end by its one
  caller, so an exception raised after some lines were yielded is the result.
\<close>

fun render_loop :: "(string \<Rightarrow> nat) \<Rightarrow> string list \<Rightarrow> error + string list" where
  "render_loop seen_imports [] = Inr []"
| "render_loop seen_imports (dep # deps) =
     (let parts = path_parts dep in
      if parts \<noteq> [] then
        (let froms = butlast parts; import' = last parts in
         if import' = ''__init__'' then render_loop seen_imports deps
         else
           (let from' = join ''.'' froms;
                seen_imports' = seen_imports(import' := Suc (seen_imports import'));
                alias = import' @ str_of_nat (seen_imports' import')
            in (case render_loop seen_imports' deps of
                  Inl e \<Rightarrow> Inl e
                | Inr ls \<Rightarrow> Inr (import_line from' import' alias # ls))))
      else Inl ZeroLengthDependency)"

definition render_imports :: "string list \<Rightarrow> error + string list" where
  "render_imports deps = render_loop (\<lambda>_. 0) deps"

section \<open>Target handler and pipeline\<close>

text \<open>
  \<open>set(info.dependencies).difference(info.dependencies_raw)\<close>, as the list the
  comprehension iterates over. A Python set holds each element once and iterates in an
  order the language does not fix; \<open>order\<close> is the arrangement of the run.
\<close>

definition inferred_deps :: "(string list \<Rightarrow> string list) \<Rightarrow> 'o TargetInfo \<Rightarrow> string list" where
  "inferred_deps order info =
     order (remdups (filter (\<lambda>d. d \<notin> set (dependencies_raw info)) (dependencies info)))"

definition handle_python_module ::
  "(string list \<Rightarrow> string list) \<Rightarrow> 'o TargetInfo \<Rightarrow> string \<Rightarrow> RenameMap
     \<Rightarrow> error + ('o TargetWithContent \<times> RenameMap)" where
  "handle_python_module order info ttype rm =
     (case rename_python_module (path (address info)) rm of
        Inl e \<Rightarrow> Inl e
      | Inr (new_path, rm1) \<Rightarrow>
          (let new_address = (address info)\<lparr>path := new_path\<rparr> in
           case renamed_deps (inferred_deps order info) rm1 of
             Inl e \<Rightarrow> Inl e
           | Inr (renamed, rm2) \<Rightarrow>
               (case render_imports renamed of
                  Inl e \<Rightarrow> Inl e
                | Inr ls \<Rightarrow>
                    Inr (\<lparr>address = new_address,
                          target_type = target_type info,
                          dependencies = renamed,
                          dependencies_raw = [],
                          other = other info,
                          content = join [CHR 0x0A] (ls @ [[]])\<rparr>, rm2))))"

definition type_to_handler ::
  "(string list \<Rightarrow> string list) \<Rightarrow> string
     \<rightharpoonup> ('o TargetInfo \<Rightarrow> string \<Rightarrow> RenameMap \<Rightarrow> error + ('o TargetWithContent \<times> RenameMap))" where
  "type_to_handler order =
     [''python_source'' \<mapsto> handle_python_module order,
      ''python_test'' \<mapsto> handle_python_module order]"

text \<open>The list comprehension of \<open>rename_python_targets\<close>: a record whose type is not a
  key of \<open>type_to_handler\<close> is skipped; the others go through their handler, in order,
  with the one map.\<close>

fun handle_targets ::
  "(string list \<Rightarrow> string list) \<Rightarrow> 'o TargetInfo list \<Rightarrow> RenameMap
     \<Rightarrow> error + ('o TargetWithContent list \<times> RenameMap)" where
  "handle_targets order [] rm = Inr ([], rm)"
| "handle_targets order (ti # tis) rm =
     (case type_to_handler order (target_type ti) of
        None \<Rightarrow> handle_targets order tis rm
      | Some handler \<Rightarrow>
          (case handler ti (target_type ti) rm of
             Inl e \<Rightarrow> Inl e
           | Inr (twc, rm1) \<Rightarrow>
               (case handle_targets order tis rm1 of
                  Inl e \<Rightarrow> Inl e
                | Inr (twcs, rm2) \<Rightarrow> Inr (twc # twcs, rm2))))"

text \<open>\<open>rename_python_targets\<close>; \<open>gen\<close> is the name generator of the new \<open>RenameMap\<close>.\<close>

definition rename_python_targets ::
  "(string list \<Rightarrow> string list) \<Rightarrow> (nat \<Rightarrow> string) \<Rightarrow> 'o TargetInfo list
     \<Rightarrow> error + 'o TargetWithContent list" where
  "rename_python_targets order gen peek_data =
     (case handle_targets order peek_data (new_RenameMap gen) of
        Inl e \<Rightarrow> Inl e
      | Inr (twcs, rm) \<Rightarrow> Inr twcs)"

section \<open>The parts of the renamer, named\<close>

text \<open>
  The body of \<open>rename_python_module\<close> in three pieces, so that its result can be stated:
  \<^item> \<open>reserved_leaf p\<close> is the test \<open>path_parts[-1] in ("__init__", "__main__")\<close>;
  \<^item> \<open>renamed_keys p\<close> is the list the function passes to \<open>assign_many\<close>:
    \<open>path_parts[:-1]\<close> under that test, \<open>path_parts\<close> otherwise;
  \<^item> \<open>renamed_form m p\<close> is the path the function assembles when the pseudonym that
    \<open>assign_many\<close> returns for a component \<open>k\<close> is the entry \<open>m k\<close>: the pseudonyms,
    then the last component itself under the test, joined by slashes, then \<open>.py\<close>.
\<close>

definition reserved_leaf :: "string \<Rightarrow> bool" where
  "reserved_leaf p = (last (path_parts p) \<in> {''__init__'', ''__main__''})"

definition renamed_keys :: "string \<Rightarrow> string list" where
  "renamed_keys p = (if reserved_leaf p then butlast (path_parts p) else path_parts p)"

definition renamed_form :: "(string \<rightharpoonup> string) \<Rightarrow> string \<Rightarrow> string" where
  "renamed_form m p =
     join ''/'' (map (\<lambda>k. the (m k)) (renamed_keys p)
                 @ (if reserved_leaf p then [last (path_parts p)] else [])) @ ''.py''"

text \<open>The elements of a list, each once, in the order of their first occurrence: the
  order in which \<open>assign_name\<close> meets the keys that are new to the map.\<close>

definition first_seen :: "'a list \<Rightarrow> 'a list" where
  "first_seen xs = rev (remdups (rev xs))"

section \<open>Sample data\<close>

text \<open>A name generator for the worked examples: the \<open>n\<close>-th call returns
  \<open>n\<close> followed by the decimal numeral of \<open>n\<close>.\<close>

definition sample_names :: "nat \<Rightarrow> string" where
  "sample_names n = ''n'' @ str_of_nat n"

text \<open>A module target with a name and a subtarget in its address, three dependencies,
  and the first of them written by its author.\<close>

definition sample_info :: "unit TargetInfo" where
  "sample_info =
     \<lparr>address = \<lparr>path = ''pkg/a.py'', name = ''lib'', subtarget = ''gen''\<rparr>,
      target_type = ''python_source'',
      dependencies = [''a'', ''b'', ''c''],
      dependencies_raw = [''a''],
      other = ()\<rparr>"

text \<open>A module target whose one dependency is the empty string.\<close>

definition sample_empty_edge :: "unit TargetInfo" where
  "sample_empty_edge =
     \<lparr>address = \<lparr>path = ''pkg/a.py'', name = [], subtarget = []\<rparr>,
      target_type = ''python_source'',
      dependencies = [[]],
      dependencies_raw = [],
      other = ()\<rparr>"

text \<open>A module target whose raw dependency \<open>pkg/b\<close> and inferred dependency \<open>pkg/b.py\<close>
  are different strings for the same module.\<close>

definition sample_raw_twin :: "unit TargetInfo" where
  "sample_raw_twin =
     \<lparr>address = \<lparr>path = ''pkg/a.py'', name = [], subtarget = []\<rparr>,
      target_type = ''python_source'',
      dependencies = [''pkg/b.py''],
      dependencies_raw = [''pkg/b''],
      other = ()\<rparr>"

text \<open>A name generator that returns \<open>a\<close> on every call, and a module target whose raw
  dependency is \<open>a.py\<close>.\<close>

definition constant_names :: "nat \<Rightarrow> string" where
  "constant_names n = ''a''"

definition sample_raw_literal :: "unit TargetInfo" where
  "sample_raw_literal =
     \<lparr>address = \<lparr>path = ''pkg/a.py'', name = [], subtarget = []\<rparr>,
      target_type = ''python_source'',
      dependencies = [''a.py'', ''b''],
      dependencies_raw = [''a.py''],
      other = ()\<rparr>"

text \<open>Three records: a module, a target of another type, and a test module.\<close>

definition sample_records :: "unit TargetInfo list" where
  "sample_records =
     [\<lparr>address = \<lparr>path = ''pkg/a.py'', name = [], subtarget = []\<rparr>,
       target_type = ''python_source'',
       dependencies = [''pkg/helpers.py''],
       dependencies_raw = [],
       other = ()\<rparr>,
      \<lparr>address = \<lparr>path = ''pkg/data.txt'', name = [], subtarget = []\<rparr>,
       target_type = ''file'',
       dependencies = [],
       dependencies_raw = [],
       other = ()\<rparr>,
      \<lparr>address = \<lparr>path = ''pkg/helpers.py'', name = [], subtarget = []\<rparr>,
       target_type = ''python_test'',
       dependencies = [],
       dependencies_raw = [],
       other = ()\<rparr>]"

section \<open>Facts about the string primitives\<close>

lemma str_split_nonempty: "str_split sep s \<noteq> []"
  by (induction s) (auto split: list.splits)

lemma path_parts_nonempty: "path_parts p \<noteq> []"
  by (simp add: path_parts_def str_split_nonempty)

section \<open>Facts about RenameMap\<close>

lemma assign_name_result:
  assumes "assign_name k rm = (v, rm')"
  shows "rmap rm' k = Some v" and "rmap rm \<subseteq>\<^sub>m rmap rm'" and "gen_name rm' = gen_name rm"
  using assms
  by (auto simp: assign_name_def Let_def map_le_def split: option.splits)

lemma assign_many_result:
  assumes "assign_many ks rm = (vs, rm')"
  shows "rmap rm \<subseteq>\<^sub>m rmap rm' \<and> set ks \<subseteq> dom (rmap rm')
         \<and> vs = map (\<lambda>k. the (rmap rm' k)) ks \<and> gen_name rm' = gen_name rm"
  using assms
proof (induction ks arbitrary: rm vs rm')
  case Nil
  then show ?case by simp
next
  case (Cons k ks)
  obtain v rm1 where a: "assign_name k rm = (v, rm1)"
    by (cases "assign_name k rm")
  obtain ws rm2 where b: "assign_many ks rm1 = (ws, rm2)"
    by (cases "assign_many ks rm1")
  from Cons.prems a b have eq: "vs = v # ws" "rm' = rm2"
    by simp_all
  from Cons.IH [OF b] have ih: "rmap rm1 \<subseteq>\<^sub>m rmap rm2" "set ks \<subseteq> dom (rmap rm2)"
      "ws = map (\<lambda>k. the (rmap rm2 k)) ks" "gen_name rm2 = gen_name rm1"
    by simp_all
  from assign_name_result [OF a] have n: "rmap rm1 k = Some v" "rmap rm \<subseteq>\<^sub>m rmap rm1"
      "gen_name rm1 = gen_name rm"
    by simp_all
  from n(1) ih(1) have k2: "rmap rm2 k = Some v"
    by (metis domI map_le_def)
  have "rmap rm \<subseteq>\<^sub>m rmap rm2"
    using n(2) ih(1) by (rule map_le_trans)
  with k2 ih n(3) eq show ?case
    by auto
qed

section \<open>Module path renamer: results\<close>

lemma join_Cons_nonempty: "ys \<noteq> [] \<Longrightarrow> join sep (x # ys) = x @ sep @ join sep ys"
  by (cases ys) simp_all

lemma map_le_Some: "m \<subseteq>\<^sub>m m' \<Longrightarrow> m k = Some v \<Longrightarrow> m' k = Some v"
  by (metis domI map_le_def)

text \<open>What one call of \<open>rename_python_module\<close> returns, in terms of the map it leaves.\<close>

lemma rename_python_module_result:
  "\<exists>rm'. rename_python_module p rm =
            Inr (join ''/''
                   (if last (path_parts p) \<in> {''__init__'', ''__main__''}
                    then map (\<lambda>k. the (rmap rm' k)) (butlast (path_parts p)) @ [last (path_parts p)]
                    else map (\<lambda>k. the (rmap rm' k)) (path_parts p)) @ ''.py'', rm')
         \<and> rmap rm \<subseteq>\<^sub>m rmap rm' \<and> gen_name rm' = gen_name rm
         \<and> set (if last (path_parts p) \<in> {''__init__'', ''__main__''}
                then butlast (path_parts p) else path_parts p) \<subseteq> dom (rmap rm')"
proof (cases "last (path_parts p) \<in> {''__init__'', ''__main__''}")
  case True
  obtain vs rm' where a: "assign_many (butlast (path_parts p)) rm = (vs, rm')"
    by (cases "assign_many (butlast (path_parts p)) rm")
  from assign_many_result [OF a] a True show ?thesis
    by (intro exI [of _ rm'])
       (simp add: rename_python_module_def Let_def path_parts_nonempty)
next
  case False
  obtain vs rm' where a: "assign_many (path_parts p) rm = (vs, rm')"
    by (cases "assign_many (path_parts p) rm")
  from assign_many_result [OF a] a False show ?thesis
    by (intro exI [of _ rm'])
       (simp add: rename_python_module_def Let_def path_parts_nonempty)
qed

lemma rename_python_module_Inr: "\<exists>out rm'. rename_python_module p rm = Inr (out, rm')"
  using rename_python_module_result [of p rm] by blast

lemma rename_python_module_map_le:
  "rename_python_module p rm = Inr (out, rm') \<Longrightarrow> rmap rm \<subseteq>\<^sub>m rmap rm'"
  using rename_python_module_result [of p rm] by auto

text \<open>The first of two or more components is a directory: it is always renamed, and the
  output path begins with its pseudonym and a slash.\<close>

lemma rename_python_module_leading:
  assumes r: "rename_python_module p rm = Inr (out, rm')"
    and len: "2 \<le> length (path_parts p)"
  shows "\<exists>n r. rmap rm' (hd (path_parts p)) = Some n \<and> out = n @ ''/'' @ r"
proof -
  from len obtain a b cs where parts: "path_parts p = a # b # cs"
    by (cases "path_parts p"; cases "tl (path_parts p)") auto
  let ?f = "\<lambda>k. the (rmap rm' k)"
  from rename_python_module_result [of p rm] r
  have out: "out = join ''/''
                   (if last (path_parts p) \<in> {''__init__'', ''__main__''}
                    then map ?f (butlast (path_parts p)) @ [last (path_parts p)]
                    else map ?f (path_parts p)) @ ''.py''"
    and dom: "set (if last (path_parts p) \<in> {''__init__'', ''__main__''}
                then butlast (path_parts p) else path_parts p) \<subseteq> dom (rmap rm')"
    by auto
  from dom parts have "a \<in> dom (rmap rm')"
    by (auto split: if_splits)
  then have n: "rmap rm' a = Some (?f a)"
    by auto
  have "\<exists>r. out = ?f a @ ''/'' @ r"
  proof (cases "last (path_parts p) \<in> {''__init__'', ''__main__''}")
    case True
    with out parts
    have "out = join ''/'' (?f a # (map ?f (butlast (b # cs)) @ [last (b # cs)])) @ ''.py''"
      by simp
    then have "out = ?f a @ ''/'' @ join ''/'' (map ?f (butlast (b # cs)) @ [last (b # cs)]) @ ''.py''"
      by (simp add: join_Cons_nonempty)
    then show ?thesis by blast
  next
    case False
    with out parts have "out = join ''/'' (?f a # map ?f (b # cs)) @ ''.py''"
      by simp
    then have "out = ?f a @ ''/'' @ join ''/'' (map ?f (b # cs)) @ ''.py''"
      by (simp add: join_Cons_nonempty)
    then show ?thesis by blast
  qed
  with n parts show ?thesis
    by auto
qed

lemma renamed_deps_Inr: "\<exists>outs rm'. renamed_deps ps rm = Inr (outs, rm')"
proof (induction ps arbitrary: rm)
  case Nil
  show ?case by simp
next
  case (Cons x xs)
  obtain y rm1 where a: "rename_python_module x rm = Inr (y, rm1)"
    using rename_python_module_Inr by blast
  from Cons [of rm1] obtain ys rm2 where b: "renamed_deps xs rm1 = Inr (ys, rm2)"
    by blast
  from a b show ?case by simp
qed

lemma renamed_deps_leading:
  assumes "renamed_deps ps rm = Inr (outs, rm')"
  shows "length outs = length ps \<and> rmap rm \<subseteq>\<^sub>m rmap rm'
         \<and> (\<forall>i<length ps. 2 \<le> length (path_parts (ps ! i)) \<longrightarrow>
               (\<exists>n r. rmap rm' (hd (path_parts (ps ! i))) = Some n \<and> outs ! i = n @ ''/'' @ r))"
  using assms
proof (induction ps arbitrary: rm outs rm')
  case Nil
  then show ?case by simp
next
  case (Cons x xs)
  obtain y rm1 where a: "rename_python_module x rm = Inr (y, rm1)"
    using rename_python_module_Inr by blast
  obtain ys rm2 where b: "renamed_deps xs rm1 = Inr (ys, rm2)"
    using renamed_deps_Inr by blast
  from Cons.prems a b have eq: "outs = y # ys" "rm' = rm2"
    by simp_all
  from Cons.IH [OF b] have ih: "length ys = length xs" "rmap rm1 \<subseteq>\<^sub>m rmap rm2"
    "\<forall>i<length xs. 2 \<le> length (path_parts (xs ! i)) \<longrightarrow>
       (\<exists>n r. rmap rm2 (hd (path_parts (xs ! i))) = Some n \<and> ys ! i = n @ ''/'' @ r)"
    by simp_all
  have le: "rmap rm \<subseteq>\<^sub>m rmap rm2"
    using rename_python_module_map_le [OF a] ih(2) by (rule map_le_trans)
  have "\<exists>n r. rmap rm2 (hd (path_parts ((x # xs) ! i))) = Some n \<and> (y # ys) ! i = n @ ''/'' @ r"
    if "i < length (x # xs)" and "2 \<le> length (path_parts ((x # xs) ! i))" for i
  proof (cases i)
    case 0
    with that rename_python_module_leading [OF a]
    obtain n r where "rmap rm1 (hd (path_parts x)) = Some n" "y = n @ ''/'' @ r"
      by auto
    with ih(2) 0 show ?thesis
      by (auto dest: map_le_Some)
  next
    case (Suc k)
    with that ih(3) show ?thesis
      by simp
  qed
  with eq ih(1) le show ?case
    by simp
qed

text \<open>
  C1. Any number of module paths are renamed one after the other through one
  \<open>RenameMap\<close>. Whenever two of them have a directory in front (two components or more)
  and the same string as first component, both output paths begin with the same
  pseudonym followed by a slash: the one the map holds for that component.
\<close>

theorem renaming_consistency:
  assumes "i < length ps" and "j < length ps"
    and "2 \<le> length (path_parts (ps ! i))" and "2 \<le> length (path_parts (ps ! j))"
    and "hd (path_parts (ps ! i)) = hd (path_parts (ps ! j))"
  shows "\<exists>outs rm' n r1 r2. renamed_deps ps rm = Inr (outs, rm')
           \<and> rmap rm' (hd (path_parts (ps ! i))) = Some n
           \<and> outs ! i = n @ ''/'' @ r1 \<and> outs ! j = n @ ''/'' @ r2"
proof -
  obtain outs rm' where a: "renamed_deps ps rm = Inr (outs, rm')"
    using renamed_deps_Inr by blast
  from renamed_deps_leading [OF a] assms
  obtain n r1 where i: "rmap rm' (hd (path_parts (ps ! i))) = Some n" "outs ! i = n @ ''/'' @ r1"
    by blast
  from renamed_deps_leading [OF a] assms
  obtain m r2 where j: "rmap rm' (hd (path_parts (ps ! j))) = Some m" "outs ! j = m @ ''/'' @ r2"
    by blast
  from i(1) j(1) assms(5) have "m = n"
    by simp
  with a i j show ?thesis
    by blast
qed

text \<open>
  C8 (as amended). Module path renaming never fails. Splitting a string always yields at
  least one component (the empty path yields the single empty component), so the index
  of the last component is always in range, and every path, the empty one included, is
  renamed.
\<close>

theorem rename_python_module_total:
  "\<exists>out rm'. rename_python_module p rm = Inr (out, rm')"
  by (simp add: rename_python_module_def Let_def path_parts_nonempty split: prod.splits)

text \<open>
  C8 (as stated, refuted). The empty path decomposes to one (empty) component, not to
  none, and renaming it succeeds: with a fresh map it returns the first generated name
  followed by the module suffix.
\<close>

theorem rename_python_module_empty_path_succeeds:
  "path_parts [] = [[]]
   \<and> map_sum id fst (rename_python_module [] (new_RenameMap sample_names)) = Inr ''n0.py''"
  by (simp add: rename_python_module_def path_parts_def removesuffix_def new_RenameMap_def
      assign_name_def sample_names_def str_of_nat.simps digit_char_def Let_def)

text \<open>C1 at two paths under \<open>pkg\<close>, renamed through a fresh map.\<close>

theorem renaming_consistency_witness:
  "2 \<le> length (path_parts ''pkg/a.py'') \<and> 2 \<le> length (path_parts ''pkg/sub/b.py'')
   \<and> hd (path_parts ''pkg/a.py'') = hd (path_parts ''pkg/sub/b.py'')
   \<and> (\<exists>outs rm' n r1 r2.
         renamed_deps [''pkg/a.py'', ''pkg/sub/b.py''] (new_RenameMap sample_names) = Inr (outs, rm')
         \<and> rmap rm' ''pkg'' = Some n \<and> outs ! 0 = n @ ''/'' @ r1 \<and> outs ! 1 = n @ ''/'' @ r2)"
proof -
  have p1: "path_parts ''pkg/a.py'' = [''pkg'', ''a'']"
    by (simp add: path_parts_def removesuffix_def suffix_to_prefix)
  have p2: "path_parts ''pkg/sub/b.py'' = [''pkg'', ''sub'', ''b'']"
    by (simp add: path_parts_def removesuffix_def suffix_to_prefix)
  show ?thesis
    using renaming_consistency [of 0 "[''pkg/a.py'', ''pkg/sub/b.py'']" 1 "new_RenameMap sample_names"]
    by (simp add: p1 p2)
qed

section \<open>Address: results\<close>

lemma takeWhile_dropWhile_run:
  assumes "list_all P p" and "r = [] \<or> \<not> P (hd r)"
  shows "takeWhile P (p @ r) = p" and "dropWhile P (p @ r) = r"
  using assms by (induction p) (cases r; auto)+

lemma takeWhile_stop: "\<not> P a \<Longrightarrow> takeWhile P (xs @ a # ys) = takeWhile P xs"
  by (induction xs) auto

lemma last_path_part_drop_root:
  "take 2 p = ''//'' \<Longrightarrow> last_path_part (drop 2 p) = last_path_part p"
proof -
  assume "take 2 p = ''//''"
  then obtain q where p: "p = CHR ''/'' # CHR ''/'' # q"
    by (cases p; cases "tl p") auto
  have "takeWhile (\<lambda>c. c \<noteq> CHR ''/'') (rev q @ CHR ''/'' # [CHR ''/'']) = takeWhile (\<lambda>c. c \<noteq> CHR ''/'') (rev q)"
    by (rule takeWhile_stop) simp
  with p show ?thesis
    by (simp add: last_path_part_def)
qed

lemma last_path_part_chars: "list_all P p \<Longrightarrow> list_all P (last_path_part p)"
  unfolding last_path_part_def list_all_iff
  by (metis set_rev set_takeWhileD)

lemma capture_pattern_match_app:
  assumes p: "list_all addr_char p" "p \<noteq> []" and r: "r = [] \<or> \<not> addr_char (hd r)"
  shows "capture_pattern_match (p @ r) =
           Some (if take 2 p = ''//'' \<and> drop 2 p \<noteq> [] then drop 2 p else p,
                 fst (opt_group (CHR '':'') r),
                 fst (opt_group (CHR ''#'') (snd (opt_group (CHR '':'') r))))"
proof -
  let ?p' = "if take 2 p = ''//'' \<and> drop 2 p \<noteq> [] then drop 2 p else p"
  have slash: "addr_char (CHR ''/'')"
    by (simp add: addr_char_def)
  have cond: "(take 2 (p @ r) = ''//'' \<and> takeWhile addr_char (drop 2 (p @ r)) \<noteq> [])
              = (take 2 p = ''//'' \<and> drop 2 p \<noteq> [])"
  proof (cases "2 \<le> length p")
    case True
    from p(1) have "list_all addr_char (drop 2 p)"
      by (auto simp: list_all_iff dest: in_set_dropD)
    from takeWhile_dropWhile_run(1) [OF this r] True show ?thesis
      by simp
  next
    case False
    with p(2) obtain c where c: "p = [c]"
      by (cases p; cases "tl p") auto
    with r slash show ?thesis
      by (cases r) auto
  qed
  have p': "list_all addr_char ?p'" "?p' \<noteq> []"
    using p by (auto simp: list_all_iff dest: in_set_dropD)
  have s1: "(if take 2 (p @ r) = ''//'' \<and> takeWhile addr_char (drop 2 (p @ r)) \<noteq> []
             then drop 2 (p @ r) else p @ r) = ?p' @ r"
    unfolding cond by (auto simp: take_Suc_conv_app_nth)
  show ?thesis
    unfolding capture_pattern_match_def s1 Let_def
    using takeWhile_dropWhile_run [OF p'(1) r] p'(2)
    by (simp add: case_prod_beta)
qed

lemma opt_group_run:
  assumes "list_all addr_char n" and "n \<noteq> []" and "r = [] \<or> \<not> addr_char (hd r)"
  shows "opt_group sep (sep # n @ r) = (Some n, r)"
  using takeWhile_dropWhile_run [OF assms(1,3)] assms(2) by simp

lemma opt_group_other: "r = [] \<or> hd r \<noteq> sep \<Longrightarrow> opt_group sep r = (None, r)"
  by (cases r) auto

text \<open>
  C9. An address string whose name token is the last slash-delimited component of its
  path parses to the same \<open>Address\<close> as the string without the name token, and the
  name stored is empty. The string is a run \<open>p\<close> of path characters, the token, and
  either nothing or a subtarget part starting with \<open>#\<close>.
\<close>

theorem name_redundancy_normalization:
  assumes "list_all addr_char p" and "last_path_part p \<noteq> []"
    and "r = [] \<or> hd r = CHR ''#''"
  shows "from_str (p @ '':'' @ last_path_part p @ r) = from_str (p @ r)
         \<and> (\<exists>a. from_str (p @ r) = Inr a \<and> name a = [])"
proof -
  let ?lp = "last_path_part p"
  let ?p' = "if take 2 p = ''//'' \<and> drop 2 p \<noteq> [] then drop 2 p else p"
  from assms(2) have ne: "p \<noteq> []"
    by (auto simp: last_path_part_def)
  from assms(3) have r: "r = [] \<or> \<not> addr_char (hd r)"
    by (auto simp: addr_char_def)
  have lp': "last_path_part ?p' = ?lp"
    by (simp add: last_path_part_drop_root)
  have g1: "opt_group (CHR '':'') (CHR '':'' # ?lp @ r) = (Some ?lp, r)"
    using last_path_part_chars [OF assms(1)] assms(2) r by (rule opt_group_run)
  have g2: "opt_group (CHR '':'') r = (None, r)"
    using assms(3) by (intro opt_group_other) auto
  have "capture_pattern_match (p @ (CHR '':'' # ?lp @ r))
        = Some (?p', Some ?lp, fst (opt_group (CHR ''#'') r))"
    using capture_pattern_match_app [OF assms(1) ne, of "CHR '':'' # ?lp @ r"] g1
    by (simp add: addr_char_def)
  moreover have "capture_pattern_match (p @ r) = Some (?p', None, fst (opt_group (CHR ''#'') r))"
    using capture_pattern_match_app [OF assms(1) ne r] g2 by simp
  ultimately show ?thesis
    using lp' by (simp add: from_str_def)
qed

text \<open>C9 at \<open>a/b:b\<close> and \<open>a/b\<close>.\<close>

theorem name_redundancy_normalization_witness:
  "from_str ''a/b:b'' = from_str ''a/b''
   \<and> from_str ''a/b'' = Inr \<lparr>path = ''a/b'', name = [], subtarget = []\<rparr>"
proof -
  have lp: "last_path_part ''a/b'' = ''b''"
    by (simp add: last_path_part_def)
  have ac: "list_all addr_char ''a/b''"
    by (simp add: addr_char_def)
  have "from_str ''a/b'' = Inr \<lparr>path = ''a/b'', name = [], subtarget = []\<rparr>"
    by (simp add: from_str_def capture_pattern_match_def addr_char_def)
  with name_redundancy_normalization [of "''a/b''" "[]"] lp ac show ?thesis
    by simp
qed

text \<open>
  C4 (as amended). A string \<open>path:name\<close> or \<open>path:name#subtarget\<close>, whose parts are
  non-empty runs of characters other than \<open>:\<close> and \<open>#\<close>, and whose path does not have
  the root marker \<open>//\<close> in front of further characters, is parsed and serialized back
  to itself.
\<close>

theorem address_round_trip:
  assumes "list_all addr_char p" and "p \<noteq> []"
    and "\<not> (take 2 p = ''//'' \<and> drop 2 p \<noteq> [])"
    and "list_all addr_char n" and "n \<noteq> []"
    and "list_all addr_char sub"
  shows "reserialize (p @ '':'' @ n @ (if sub \<noteq> [] then ''#'' @ sub else []))
         = Inr (p @ '':'' @ n @ (if sub \<noteq> [] then ''#'' @ sub else []))"
proof -
  let ?t = "if sub \<noteq> [] then ''#'' @ sub else []"
  have t: "?t = [] \<or> \<not> addr_char (hd ?t)"
    by (simp add: addr_char_def)
  have g1: "opt_group (CHR '':'') (CHR '':'' # n @ ?t) = (Some n, ?t)"
    using assms(4,5) t by (rule opt_group_run)
  have g2: "opt_group (CHR ''#'') ?t = (if sub \<noteq> [] then Some sub else None, [])"
  proof (cases "sub = []")
    case True
    then show ?thesis by simp
  next
    case False
    with opt_group_run [OF assms(6) False, of "[]" "CHR ''#''"] show ?thesis
      by simp
  qed
  have r': "CHR '':'' # n @ ?t = [] \<or> \<not> addr_char (hd (CHR '':'' # n @ ?t))"
    by (simp add: addr_char_def)
  have p': "(if take 2 p = ''//'' \<and> drop 2 p \<noteq> [] then drop 2 p else p) = p"
    using assms(3) by (cases "take 2 p = ''//'' \<and> drop 2 p \<noteq> []") (simp_all only: if_True if_False)
  have "capture_pattern_match (p @ (CHR '':'' # n @ ?t))
        = Some (p, Some n, if sub \<noteq> [] then Some sub else None)"
    unfolding capture_pattern_match_app [OF assms(1,2) r'] g1 fst_conv snd_conv g2 p' ..
  then have "from_str (p @ '':'' @ n @ ?t)
        = Inr \<lparr>path = p, name = (if n = last_path_part p then [] else n), subtarget = sub\<rparr>"
    using assms(5) by (simp add: from_str_def)
  then show ?thesis
    using assms(2,5) by (simp add: reserialize_def Address_str_def)
qed

text \<open>C4 (as amended) at three strings; a path that is the marker alone is kept.\<close>

theorem address_round_trip_witness:
  "reserialize ''a/b:c#d'' = Inr ''a/b:c#d'' \<and> reserialize ''a/b:b'' = Inr ''a/b:b''
   \<and> reserialize ''//:x'' = Inr ''//:x''"
  using address_round_trip [of "''a/b''" "''c''" "''d''"]
    address_round_trip [of "''a/b''" "''b''" "[]"]
    address_round_trip [of "''//''" "''x''" "[]"]
  by (simp add: addr_char_def)

text \<open>
  C4 (as stated, refuted). \<open>//a:a\<close> is what the serializer writes for the address that
  the parser returns on \<open>////a\<close>, with an explicit name after the path; parsing it drops
  the root marker and serializing does not put it back.
\<close>

theorem address_round_trip_root_marker_lost:
  "from_str ''////a'' = Inr \<lparr>path = ''//a'', name = [], subtarget = []\<rparr>
   \<and> Address_str \<lparr>path = ''//a'', name = [], subtarget = []\<rparr> = ''//a:a''
   \<and> reserialize ''//a:a'' = Inr ''a:a''"
  by (simp add: reserialize_def from_str_def capture_pattern_match_def addr_char_def
      Address_str_def last_path_part_def Let_def)

section \<open>Import synthesis: results\<close>



lemma str_of_nat_1: "str_of_nat (Suc 0) = ''1''"
  by (simp add: str_of_nat.simps digit_char_def)


text \<open>What the loop returns when started with any counter: one line per dependency whose
  leaf is not \<open>__init__\<close>, the counter of a leaf being its starting value plus the number
  of its occurrences so far.\<close>

lemma render_loop_result:
  "\<exists>ls. render_loop seen deps = Inr ls
     \<and> length ls = length (filter (\<lambda>d. last (path_parts d) \<noteq> ''__init__'') deps)
     \<and> (\<forall>i<length ls.
           let kept = filter (\<lambda>d. last (path_parts d) \<noteq> ''__init__'') deps;
               leaf = last (path_parts (kept ! i))
           in ls ! i =
                import_line (join ''.'' (butlast (path_parts (kept ! i)))) leaf
                  (leaf @ str_of_nat (seen leaf
                     + count_list (map (\<lambda>d. last (path_parts d)) (take (Suc i) kept)) leaf)))"
proof (induction deps arbitrary: seen)
  case Nil
  show ?case by simp
next
  case (Cons d ds)
  let ?leaf = "\<lambda>d. last (path_parts d)"
  show ?case
  proof (cases "?leaf d = ''__init__''")
    case True
    with Cons [of seen] show ?thesis
      by (simp add: path_parts_nonempty Let_def)
  next
    case False
    let ?seen' = "seen(?leaf d := Suc (seen (?leaf d)))"
    let ?kept = "filter (\<lambda>d. ?leaf d \<noteq> ''__init__'') ds"
    from Cons [of ?seen'] obtain ls where ls: "render_loop ?seen' ds = Inr ls"
      "length ls = length ?kept"
      "\<forall>i<length ls. ls ! i =
                import_line (join ''.'' (butlast (path_parts (?kept ! i)))) (?leaf (?kept ! i))
                  (?leaf (?kept ! i) @ str_of_nat (?seen' (?leaf (?kept ! i))
                     + count_list (map ?leaf (take (Suc i) ?kept)) (?leaf (?kept ! i))))"
      unfolding Let_def by blast
    let ?l0 = "import_line (join ''.'' (butlast (path_parts d))) (?leaf d)
                 (?leaf d @ str_of_nat (Suc (seen (?leaf d))))"
    have r: "render_loop seen (d # ds) = Inr (?l0 # ls)"
      using False ls(1) by (simp add: path_parts_nonempty Let_def)
    have "(?l0 # ls) ! i =
                import_line (join ''.'' (butlast (path_parts ((d # ?kept) ! i)))) (?leaf ((d # ?kept) ! i))
                  (?leaf ((d # ?kept) ! i) @ str_of_nat (seen (?leaf ((d # ?kept) ! i))
                     + count_list (map ?leaf (take (Suc i) (d # ?kept))) (?leaf ((d # ?kept) ! i))))"
      if "i < length (?l0 # ls)" for i
    proof (cases i)
      case 0
      then show ?thesis by simp
    next
      case (Suc k)
      with that ls(3) show ?thesis
        by simp
    qed
    with r ls(2) False show ?thesis
      unfolding Let_def by simp
  qed
qed






text \<open>The branch of \<open>render_imports\<close> that raises is never taken.\<close>

lemma render_loop_Inr: "\<exists>ls. render_loop seen deps = Inr ls"
  using render_loop_result [of seen deps] by blast

section \<open>Target handler and pipeline: results\<close>

lemma renamed_deps_length: "renamed_deps ps rm = Inr (outs, rm') \<Longrightarrow> length outs = length ps"
  using renamed_deps_leading by blast

text \<open>The handler never fails; its result, in terms of the three steps it takes.\<close>

lemma handle_python_module_result:
  "\<exists>new_path rm1 renamed rm2 ls.
      rename_python_module (path (address info)) rm = Inr (new_path, rm1)
    \<and> renamed_deps (inferred_deps order info) rm1 = Inr (renamed, rm2)
    \<and> render_imports renamed = Inr ls
    \<and> handle_python_module order info ttype rm =
        Inr (\<lparr>address = (address info)\<lparr>path := new_path\<rparr>,
              target_type = target_type info,
              dependencies = renamed,
              dependencies_raw = [],
              other = other info,
              content = join [CHR 0x0A] (ls @ [[]])\<rparr>, rm2)"
proof -
  obtain new_path rm1 where a: "rename_python_module (path (address info)) rm = Inr (new_path, rm1)"
    using rename_python_module_Inr by blast
  obtain renamed rm2 where b: "renamed_deps (inferred_deps order info) rm1 = Inr (renamed, rm2)"
    using renamed_deps_Inr by blast
  obtain ls where c: "render_imports renamed = Inr ls"
    using render_loop_Inr unfolding render_imports_def by blast
  from a b c show ?thesis
    by (simp add: handle_python_module_def)
qed

text \<open>
  C10. The handler returns, for every target, an address that is the input address with
  the path replaced by the renamed path: the name and the subtarget of the input address
  are in the output address as they were.
\<close>

theorem handle_python_module_address_frame:
  "\<exists>twc rm'. handle_python_module order info ttype rm = Inr (twc, rm')
      \<and> name (address twc) = name (address info)
      \<and> subtarget (address twc) = subtarget (address info)
      \<and> address twc = (address info)\<lparr>path := path (address twc)\<rparr>
      \<and> (\<exists>rm1. rename_python_module (path (address info)) rm = Inr (path (address twc), rm1))"
  using handle_python_module_result [of info rm order ttype] by auto

lemma type_to_handler_eligible:
  "type_to_handler order t =
     (if t \<in> {''python_source'', ''python_test''} then Some (handle_python_module order) else None)"
  by (simp add: type_to_handler_def)

text \<open>The loop over the records, started with any map: \<open>rms\<close> is the sequence of states the
  one map goes through, from handler call to handler call.\<close>

lemma handle_targets_result:
  "\<exists>outs rms.
      handle_targets order tis rm = Inr (outs, last rms)
    \<and> length outs = length (filter (\<lambda>ti. target_type ti \<in> {''python_source'', ''python_test''}) tis)
    \<and> length rms = Suc (length outs) \<and> rms ! 0 = rm
    \<and> (\<forall>i<length outs.
          handle_python_module order
            (filter (\<lambda>ti. target_type ti \<in> {''python_source'', ''python_test''}) tis ! i)
            (target_type (filter (\<lambda>ti. target_type ti \<in> {''python_source'', ''python_test''}) tis ! i))
            (rms ! i) = Inr (outs ! i, rms ! Suc i))"
proof (induction tis arbitrary: rm)
  case Nil
  show ?case
    by (intro exI [of _ "[]"] exI [of _ "[rm]"]) simp
next
  case (Cons ti tis)
  let ?E = "\<lambda>ti::'a TargetInfo. target_type ti \<in> {''python_source'', ''python_test''}"
  show ?case
  proof (cases "?E ti")
    case False
    with Cons [of rm] show ?thesis
      by (simp add: type_to_handler_eligible)
  next
    case True
    obtain twc rm1 where h: "handle_python_module order ti (target_type ti) rm = Inr (twc, rm1)"
      using handle_python_module_result [of ti rm order "target_type ti"] by blast
    from Cons [of rm1] obtain outs rms where ih:
      "handle_targets order tis rm1 = Inr (outs, last rms)"
      "length outs = length (filter ?E tis)"
      "length rms = Suc (length outs)" "rms ! 0 = rm1"
      "\<forall>i<length outs. handle_python_module order (filter ?E tis ! i)
            (target_type (filter ?E tis ! i)) (rms ! i) = Inr (outs ! i, rms ! Suc i)"
      by blast
    from ih(3) have ne: "rms \<noteq> []"
      by auto
    have r: "handle_targets order (ti # tis) rm = Inr (twc # outs, last (rm # rms))"
      using True h ih(1) ne by (simp add: type_to_handler_eligible)
    have step: "handle_python_module order (filter ?E (ti # tis) ! i)
            (target_type (filter ?E (ti # tis) ! i)) ((rm # rms) ! i)
          = Inr ((twc # outs) ! i, (rm # rms) ! Suc i)" if "i < length (twc # outs)" for i
    proof (cases i)
      case 0
      with True h ih(4) show ?thesis by simp
    next
      case (Suc k)
      with that True ih(5) show ?thesis by simp
    qed
    show ?thesis
      using r ih(2,3) True step
      by (intro exI [of _ "twc # outs"] exI [of _ "rm # rms"]) simp
  qed
qed

text \<open>
  C7. The pipeline never fails and returns one output per record whose type is
  \<open>python_source\<close> or \<open>python_test\<close>, in input order; the other records leave no
  trace. The \<open>i\<close>-th output is what the handler returns for the \<open>i\<close>-th such record when
  given the map as the previous handler call left it, the first call getting a new,
  empty map.
\<close>

theorem rename_python_targets_pipeline:
  "let eligible = filter (\<lambda>ti. target_type ti \<in> {''python_source'', ''python_test''}) peek_data
   in \<exists>outs rms.
        rename_python_targets order gen peek_data = Inr outs
      \<and> length outs = length eligible
      \<and> length rms = Suc (length eligible) \<and> rms ! 0 = new_RenameMap gen
      \<and> (\<forall>i<length eligible.
            handle_python_module order (eligible ! i) (target_type (eligible ! i)) (rms ! i)
              = Inr (outs ! i, rms ! Suc i))"
proof -
  from handle_targets_result [of order peek_data "new_RenameMap gen"]
  obtain outs rms where h:
    "handle_targets order peek_data (new_RenameMap gen) = Inr (outs, last rms)"
    "length outs = length (filter (\<lambda>ti. target_type ti \<in> {''python_source'', ''python_test''}) peek_data)"
    "length rms = Suc (length outs)" "rms ! 0 = new_RenameMap gen"
    "\<forall>i<length outs.
          handle_python_module order
            (filter (\<lambda>ti. target_type ti \<in> {''python_source'', ''python_test''}) peek_data ! i)
            (target_type (filter (\<lambda>ti. target_type ti \<in> {''python_source'', ''python_test''}) peek_data ! i))
            (rms ! i) = Inr (outs ! i, rms ! Suc i)"
    by blast
  then show ?thesis
    unfolding Let_def rename_python_targets_def
    by (intro exI [of _ outs] exI [of _ rms]) simp
qed

section \<open>Worked examples\<close>

text \<open>C10 at the sample target: the name \<open>lib\<close> and the subtarget \<open>gen\<close> are in the
  output address.\<close>

theorem handle_python_module_address_frame_witness:
  "\<exists>twc rm'. handle_python_module rev sample_info ''python_source'' (new_RenameMap sample_names) = Inr (twc, rm')
      \<and> name (address twc) = ''lib'' \<and> subtarget (address twc) = ''gen''"
  using handle_python_module_address_frame [of rev sample_info "''python_source''" "new_RenameMap sample_names"]
  by (auto simp: sample_info_def)

text \<open>C7 at the three sample records: two outputs, for the first and the third record,
  the second handler call starting from the map the first one left.\<close>

theorem rename_python_targets_pipeline_witness:
  "\<exists>outs rms.
      rename_python_targets rev sample_names sample_records = Inr outs
    \<and> length outs = 2 \<and> length rms = 3 \<and> rms ! 0 = new_RenameMap sample_names
    \<and> handle_python_module rev (sample_records ! 0) ''python_source'' (rms ! 0) = Inr (outs ! 0, rms ! 1)
    \<and> handle_python_module rev (sample_records ! 2) ''python_test'' (rms ! 1) = Inr (outs ! 1, rms ! 2)"
proof -
  have e: "filter (\<lambda>ti. target_type ti \<in> {''python_source'', ''python_test''}) sample_records
           = [sample_records ! 0, sample_records ! 2]"
    by (simp add: sample_records_def)
  have t: "target_type (sample_records ! 0) = ''python_source''"
    "target_type (sample_records ! 2) = ''python_test''"
    by (simp_all add: sample_records_def)
  from rename_python_targets_pipeline [of sample_records rev sample_names]
  obtain outs rms where h: "rename_python_targets rev sample_names sample_records = Inr outs"
    "length outs = length [sample_records ! 0, sample_records ! 2]"
    "length rms = Suc (length [sample_records ! 0, sample_records ! 2])"
    "rms ! 0 = new_RenameMap sample_names"
    "\<forall>i<length [sample_records ! 0, sample_records ! 2].
        handle_python_module rev ([sample_records ! 0, sample_records ! 2] ! i)
              (target_type ([sample_records ! 0, sample_records ! 2] ! i)) (rms ! i)
            = Inr (outs ! i, rms ! Suc i)"
    unfolding Let_def e by blast
  from h(5) have "handle_python_module rev (sample_records ! 0) ''python_source'' (rms ! 0) = Inr (outs ! 0, rms ! 1)"
    "handle_python_module rev (sample_records ! 2) ''python_test'' (rms ! 1) = Inr (outs ! 1, rms ! 2)"
    using t by (auto simp: All_less_Suc numeral_2_eq_2)
  with h(1-4) show ?thesis
    by (intro exI [of _ outs] exI [of _ rms]) simp
qed

text \<open>C8 (as amended) at \<open>pkg/a.py\<close>.\<close>

theorem rename_python_module_total_witness:
  "\<exists>out rm'. rename_python_module ''pkg/a.py'' (new_RenameMap sample_names) = Inr (out, rm')"
  by (rule rename_python_module_total)

text \<open>
  C3 (the code at the empty edge). The empty string decomposes to one empty component,
  not to none, so the branch of \<open>render_imports\<close> that raises is not taken: import
  synthesis returns the line \<open>import  as 1\<close>, with an empty module name. A target
  whose one dependency is the empty string goes through the handler without an error
  as well: the empty component gets a pseudonym, and the content imports it.
\<close>

theorem render_imports_empty_edge:
  "path_parts [] = [[]]
   \<and> render_imports [[]] = Inr [''import  as 1'']
   \<and> map_sum id (\<lambda>r. (dependencies (fst r), content (fst r)))
        (handle_python_module rev sample_empty_edge ''python_source'' (new_RenameMap sample_names))
      = Inr ([''n2.py''], ''import n2 as n21'' @ [CHR 0x0A])"
proof -
  have p1: "path_parts ''pkg/a.py'' = [''pkg'', ''a'']"
    by (simp add: path_parts_def removesuffix_def suffix_to_prefix)
  have p2: "path_parts [] = [[]]"
    by (simp add: path_parts_def removesuffix_def)
  have p3: "path_parts ''n2.py'' = [''n2'']"
    by (simp add: path_parts_def removesuffix_def suffix_to_prefix)
  have n: "sample_names 0 = ''n0''" "sample_names (Suc 0) = ''n1''"
    "sample_names (Suc (Suc 0)) = ''n2''"
    by (simp_all add: sample_names_def str_of_nat.simps digit_char_def)
  have r: "render_imports [[]] = Inr [''import  as 1'']"
    by (simp add: render_imports_def p2 import_line_def str_of_nat_1)
  have h: "map_sum id (\<lambda>r. (dependencies (fst r), content (fst r)))
        (handle_python_module rev sample_empty_edge ''python_source'' (new_RenameMap sample_names))
      = Inr ([''n2.py''], ''import n2 as n21'' @ [CHR 0x0A])"
    by (simp add: handle_python_module_def sample_empty_edge_def inferred_deps_def
        rename_python_module_def p1 p2 p3 new_RenameMap_def assign_name_def Let_def n
        render_imports_def import_line_def str_of_nat.simps digit_char_def)
  from p2 r h show ?thesis
    by simp
qed

section \<open>The renamer pinned to the generator\<close>

lemma first_seen_Cons:
  "first_seen (k # xs) = k # first_seen (filter (\<lambda>x. x \<noteq> k) xs)"
proof -
  have "remdups (ys @ [k]) = remdups (filter (\<lambda>x. x \<noteq> k) ys) @ [k]" for ys :: "'a list"
    by (induction ys) auto
  from this [of "rev xs"] show ?thesis
    by (simp add: first_seen_def rev_filter)
qed

lemma first_seen_Nil: "first_seen [] = []"
  by (simp add: first_seen_def)

lemma set_first_seen: "set (first_seen xs) = set xs"
  by (simp add: first_seen_def)

text \<open>What \<open>assign_many\<close> leaves in the map: the keys that were not in it get the next
  names the generator returns, in the order in which they are first met, and nothing
  else changes.\<close>

lemma assign_many_pin:
  assumes "assign_many ks rm = (vs, rm')"
  shows "gen_name rm' = gen_name rm
       \<and> calls rm' = calls rm + length (first_seen (filter (\<lambda>k. rmap rm k = None) ks))
       \<and> (\<forall>i<length (first_seen (filter (\<lambda>k. rmap rm k = None) ks)).
             rmap rm' (first_seen (filter (\<lambda>k. rmap rm k = None) ks) ! i)
               = Some (gen_name rm (calls rm + i)))
       \<and> (\<forall>k. k \<notin> set (filter (\<lambda>k. rmap rm k = None) ks) \<longrightarrow> rmap rm' k = rmap rm k)"
  using assms
proof (induction ks arbitrary: rm vs rm')
  case Nil
  then show ?case by (simp add: first_seen_Nil)
next
  case (Cons k ks)
  obtain v rm1 where a: "assign_name k rm = (v, rm1)"
    by (cases "assign_name k rm")
  obtain ws rm2 where b: "assign_many ks rm1 = (ws, rm2)"
    by (cases "assign_many ks rm1")
  from Cons.prems a b have eq: "rm' = rm2"
    by simp
  note ih = Cons.IH [OF b]
  show ?case
  proof (cases "rmap rm k")
    case (Some u)
    with a have "rm1 = rm"
      by (simp add: assign_name_def)
    with ih eq Some show ?thesis
      by simp
  next
    case None
    with a have rm1: "rm1 = rm\<lparr>rmap := (rmap rm)(k \<mapsto> gen_name rm (calls rm)), calls := Suc (calls rm)\<rparr>"
      by (auto simp: assign_name_def Let_def)
    let ?new1 = "first_seen (filter (\<lambda>x. rmap rm1 x = None) ks)"
    have f: "filter (\<lambda>x. rmap rm1 x = None) ks = filter (\<lambda>x. x \<noteq> k) (filter (\<lambda>x. rmap rm x = None) ks)"
      by (auto simp: rm1 intro: filter_cong)
    have "filter (\<lambda>x. rmap rm x = None) (k # ks) = k # filter (\<lambda>x. rmap rm x = None) ks"
      using None by simp
    then have new: "first_seen (filter (\<lambda>x. rmap rm x = None) (k # ks)) = k # ?new1"
      by (simp only: first_seen_Cons f)
    have k1: "k \<notin> set (filter (\<lambda>x. rmap rm1 x = None) ks)"
      by (simp add: rm1)
    from ih have i1: "gen_name rm2 = gen_name rm1" "calls rm2 = calls rm1 + length ?new1"
      "\<forall>i<length ?new1. rmap rm2 (?new1 ! i) = Some (gen_name rm1 (calls rm1 + i))"
      "\<forall>x. x \<notin> set (filter (\<lambda>x. rmap rm1 x = None) ks) \<longrightarrow> rmap rm2 x = rmap rm1 x"
      by simp_all
    have g: "gen_name rm1 = gen_name rm" "calls rm1 = Suc (calls rm)"
      by (simp_all add: rm1)
    have nth: "rmap rm2 ((k # ?new1) ! i) = Some (gen_name rm (calls rm + i))"
      if "i < length (k # ?new1)" for i
    proof (cases i)
      case 0
      with i1(4) k1 show ?thesis
        by (simp add: rm1)
    next
      case (Suc j)
      with that i1(3) g show ?thesis
        by simp
    qed
    have other: "rmap rm2 x = rmap rm x" if "x \<notin> set (filter (\<lambda>x. rmap rm x = None) (k # ks))" for x
    proof -
      from that None have "x \<noteq> k" "x \<notin> set (filter (\<lambda>x. rmap rm1 x = None) ks)"
        by (auto simp: rm1)
      with i1(4) show ?thesis
        by (simp add: rm1)
    qed
    show ?thesis
      unfolding new eq using i1(1,2) g nth other by simp
  qed
qed

text \<open>Two batches renamed one after the other are one batch.\<close>

lemma assign_many_append:
  "assign_many (xs @ ys) rm =
     (fst (assign_many xs rm) @ fst (assign_many ys (snd (assign_many xs rm))),
      snd (assign_many ys (snd (assign_many xs rm))))"
  by (induction xs arbitrary: rm) (simp_all add: case_prod_beta Let_def)

text \<open>\<open>rename_python_module\<close> in terms of the named parts of its body.\<close>

lemma rename_python_module_assign:
  "rename_python_module p rm =
     Inr (join ''/'' (fst (assign_many (renamed_keys p) rm)
                      @ (if reserved_leaf p then [last (path_parts p)] else [])) @ ''.py'',
          snd (assign_many (renamed_keys p) rm))"
  by (simp add: rename_python_module_def renamed_keys_def reserved_leaf_def Let_def
      path_parts_nonempty case_prod_beta)

lemma rename_python_module_form:
  assumes "rename_python_module p rm = Inr (out, rm')"
  shows "rm' = snd (assign_many (renamed_keys p) rm)" and "out = renamed_form (rmap rm') p"
    and "set (renamed_keys p) \<subseteq> dom (rmap rm')"
proof -
  obtain vs rm2 where a: "assign_many (renamed_keys p) rm = (vs, rm2)"
    by (cases "assign_many (renamed_keys p) rm")
  from assms a show 1: "rm' = snd (assign_many (renamed_keys p) rm)"
    by (simp add: rename_python_module_assign)
  with a have "rm2 = rm'"
    by simp
  with assign_many_result [OF a] a assms
  show "out = renamed_form (rmap rm') p" and "set (renamed_keys p) \<subseteq> dom (rmap rm')"
    by (simp_all add: rename_python_module_assign renamed_form_def)
qed

lemma renamed_form_map_le:
  assumes "m \<subseteq>\<^sub>m m'" and "set (renamed_keys p) \<subseteq> dom m"
  shows "renamed_form m' p = renamed_form m p"
proof -
  have e: "map (\<lambda>k. the (m' k)) (renamed_keys p) = map (\<lambda>k. the (m k)) (renamed_keys p)"
  proof (rule map_cong [OF refl])
    fix k assume "k \<in> set (renamed_keys p)"
    with assms(2) obtain v where "m k = Some v"
      by blast
    with assms(1) show "the (m' k) = the (m k)"
      by (simp add: map_le_Some)
  qed
  show ?thesis
    unfolding renamed_form_def e ..
qed

text \<open>A list of paths renamed through one map: the map at the end is the one that
  \<open>assign_many\<close> leaves on all their keys in a row, and every output is the renamed form
  of its path under that map.\<close>

lemma renamed_deps_pin:
  assumes "renamed_deps ps rm = Inr (outs, rm')"
  shows "rm' = snd (assign_many (concat (map renamed_keys ps)) rm)
       \<and> length outs = length ps
       \<and> (\<forall>i<length ps. outs ! i = renamed_form (rmap rm') (ps ! i)
                          \<and> set (renamed_keys (ps ! i)) \<subseteq> dom (rmap rm'))"
  using assms
proof (induction ps arbitrary: rm outs rm')
  case Nil
  then show ?case by simp
next
  case (Cons x xs)
  obtain y rm1 where a: "rename_python_module x rm = Inr (y, rm1)"
    using rename_python_module_Inr by blast
  obtain ys rm2 where b: "renamed_deps xs rm1 = Inr (ys, rm2)"
    using renamed_deps_Inr by blast
  from Cons.prems a b have eq: "outs = y # ys" "rm' = rm2"
    by simp_all
  note f = rename_python_module_form [OF a]
  from Cons.IH [OF b] have ih: "rm2 = snd (assign_many (concat (map renamed_keys xs)) rm1)"
    "length ys = length xs"
    "\<forall>i<length xs. ys ! i = renamed_form (rmap rm2) (xs ! i)
                      \<and> set (renamed_keys (xs ! i)) \<subseteq> dom (rmap rm2)"
    by blast+
  from renamed_deps_leading [OF b] have le: "rmap rm1 \<subseteq>\<^sub>m rmap rm2"
    by simp
  have rm2: "rm2 = snd (assign_many (concat (map renamed_keys (x # xs))) rm)"
    using ih(1) f(1) by (simp only: list.map concat.simps assign_many_append snd_conv)
  have y: "y = renamed_form (rmap rm2) x"
    using f(2) renamed_form_map_le [OF le f(3)] by simp
  have d: "set (renamed_keys x) \<subseteq> dom (rmap rm2)"
    using f(3) le by (auto dest: map_le_Some)
  have "(y # ys) ! i = renamed_form (rmap rm2) ((x # xs) ! i)
        \<and> set (renamed_keys ((x # xs) ! i)) \<subseteq> dom (rmap rm2)" if "i < length (x # xs)" for i
  proof (cases i)
    case 0
    with y d show ?thesis by simp
  next
    case (Suc j)
    with that ih(3) show ?thesis by simp
  qed
  with rm2 ih(2) show ?case
    unfolding eq by simp
qed

text \<open>
  C6. A path whose last component, once the module suffix is stripped, is \<open>__init__\<close> or
  \<open>__main__\<close> comes back with every component but the last replaced by its pseudonym
  and the last one as it was; any other path comes back with every component, the last
  included, replaced by its pseudonym. The pseudonyms are the entries of the map after
  the call, and that map is fixed by the map before the call and the generator: a
  component that was a key keeps its entry, and the components that were not keys get,
  in the order of their first occurrence, the next names the generator returns (the
  call counter advancing by their number); no other entry changes.
\<close>

theorem rename_python_module_reserved_leaf:
  "\<exists>rm'. rename_python_module p rm =
           Inr (join ''/''
                  (if last (path_parts p) \<in> {''__init__'', ''__main__''}
                   then map (\<lambda>k. the (rmap rm' k)) (butlast (path_parts p)) @ [last (path_parts p)]
                   else map (\<lambda>k. the (rmap rm' k)) (path_parts p)) @ ''.py'', rm')
       \<and> (let keys = (if last (path_parts p) \<in> {''__init__'', ''__main__''}
                       then butlast (path_parts p) else path_parts p);
               new = first_seen (filter (\<lambda>k. rmap rm k = None) keys)
           in set keys \<subseteq> dom (rmap rm')
            \<and> gen_name rm' = gen_name rm
            \<and> calls rm' = calls rm + length new
            \<and> (\<forall>i<length new. rmap rm' (new ! i) = Some (gen_name rm (calls rm + i)))
            \<and> (\<forall>k. k \<notin> set new \<longrightarrow> rmap rm' k = rmap rm k))"
proof -
  obtain out rm' where r: "rename_python_module p rm = Inr (out, rm')"
    using rename_python_module_Inr by blast
  obtain vs where a: "assign_many (renamed_keys p) rm = (vs, rm')"
    using rename_python_module_form(1) [OF r] by (cases "assign_many (renamed_keys p) rm") simp
  note f = rename_python_module_form(2,3) [OF r]
  note pin = assign_many_pin [OF a]
  have out: "out = join ''/''
                  (if last (path_parts p) \<in> {''__init__'', ''__main__''}
                   then map (\<lambda>k. the (rmap rm' k)) (butlast (path_parts p)) @ [last (path_parts p)]
                   else map (\<lambda>k. the (rmap rm' k)) (path_parts p)) @ ''.py''"
    using f(1) by (simp add: renamed_form_def renamed_keys_def reserved_leaf_def)
  have keys: "(if last (path_parts p) \<in> {''__init__'', ''__main__''}
                       then butlast (path_parts p) else path_parts p) = renamed_keys p"
    by (simp add: renamed_keys_def reserved_leaf_def)
  show ?thesis
    unfolding Let_def keys
    using r out f(2) pin by (intro exI [of _ rm']) (simp add: set_first_seen)
qed

text \<open>C6 at \<open>pkg/sub/__init__.py\<close>, whose last component stays, and at \<open>pkg/mod.py\<close>,
  whose last component is renamed, each through a new map whose generator returns
  \<open>n0\<close>, \<open>n1\<close>, and so on.\<close>

theorem rename_python_module_reserved_leaf_witness:
  "map_sum id fst (rename_python_module ''pkg/sub/__init__.py'' (new_RenameMap sample_names))
     = Inr ''n0/n1/__init__.py''
   \<and> map_sum id fst (rename_python_module ''pkg/mod.py'' (new_RenameMap sample_names))
     = Inr ''n0/n1.py''"
proof -
  have p1: "path_parts ''pkg/sub/__init__.py'' = [''pkg'', ''sub'', ''__init__'']"
    by (simp add: path_parts_def removesuffix_def suffix_to_prefix)
  have p2: "path_parts ''pkg/mod.py'' = [''pkg'', ''mod'']"
    by (simp add: path_parts_def removesuffix_def suffix_to_prefix)
  have n: "sample_names 0 = ''n0''" "sample_names (Suc 0) = ''n1''"
    by (simp_all add: sample_names_def str_of_nat.simps digit_char_def)
  have e: "rmap (new_RenameMap sample_names) k = None" "calls (new_RenameMap sample_names) = 0"
    "gen_name (new_RenameMap sample_names) = sample_names" for k
    by (simp_all add: new_RenameMap_def)
  have f1: "first_seen [''pkg'', ''sub''] = [''pkg'', ''sub'']"
    and f2: "first_seen [''pkg'', ''mod''] = [''pkg'', ''mod'']"
    by (simp_all add: first_seen_def)
  have "\<exists>rm'. rename_python_module ''pkg/sub/__init__.py'' (new_RenameMap sample_names)
                = Inr (the (rmap rm' ''pkg'') @ ''/'' @ the (rmap rm' ''sub'') @ ''/__init__.py'', rm')
              \<and> rmap rm' ''pkg'' = Some ''n0'' \<and> rmap rm' ''sub'' = Some ''n1''"
    using rename_python_module_reserved_leaf [of "''pkg/sub/__init__.py''" "new_RenameMap sample_names"]
    by (simp add: p1 e f1 n Let_def All_less_Suc) blast
  then have 1: "map_sum id fst (rename_python_module ''pkg/sub/__init__.py'' (new_RenameMap sample_names))
     = Inr ''n0/n1/__init__.py''"
    by (elim exE conjE) simp
  have "\<exists>rm'. rename_python_module ''pkg/mod.py'' (new_RenameMap sample_names)
                = Inr (the (rmap rm' ''pkg'') @ ''/'' @ the (rmap rm' ''mod'') @ ''.py'', rm')
              \<and> rmap rm' ''pkg'' = Some ''n0'' \<and> rmap rm' ''mod'' = Some ''n1''"
    using rename_python_module_reserved_leaf [of "''pkg/mod.py''" "new_RenameMap sample_names"]
    by (simp add: p2 e f2 n Let_def All_less_Suc) blast
  then have 2: "map_sum id fst (rename_python_module ''pkg/mod.py'' (new_RenameMap sample_names))
     = Inr ''n0/n1.py''"
    by (elim exE conjE) simp
  from 1 2 show ?thesis
    by simp
qed

text \<open>The lines of \<open>render_imports\<close> as one list.\<close>

lemma render_imports_lines:
  "render_imports deps =
     Inr (map (\<lambda>i. let shown = filter (\<lambda>d. last (path_parts d) \<noteq> ''__init__'') deps;
                        leaf = last (path_parts (shown ! i))
                    in import_line (join ''.'' (butlast (path_parts (shown ! i)))) leaf
                         (leaf @ str_of_nat
                            (count_list (map (\<lambda>d. last (path_parts d)) (take (Suc i) shown)) leaf)))
            [0..<length (filter (\<lambda>d. last (path_parts d) \<noteq> ''__init__'') deps)])"
proof -
  from render_loop_result [of "\<lambda>_. 0" deps] obtain ls where ls:
    "render_loop (\<lambda>_. 0) deps = Inr ls"
    "length ls = length (filter (\<lambda>d. last (path_parts d) \<noteq> ''__init__'') deps)"
    "\<forall>i<length ls.
           let kept = filter (\<lambda>d. last (path_parts d) \<noteq> ''__init__'') deps;
               leaf = last (path_parts (kept ! i))
           in ls ! i =
                import_line (join ''.'' (butlast (path_parts (kept ! i)))) leaf
                  (leaf @ str_of_nat (0
                     + count_list (map (\<lambda>d. last (path_parts d)) (take (Suc i) kept)) leaf))"
    by blast
  have "ls = map (\<lambda>i. let shown = filter (\<lambda>d. last (path_parts d) \<noteq> ''__init__'') deps;
                        leaf = last (path_parts (shown ! i))
                    in import_line (join ''.'' (butlast (path_parts (shown ! i)))) leaf
                         (leaf @ str_of_nat
                            (count_list (map (\<lambda>d. last (path_parts d)) (take (Suc i) shown)) leaf)))
            [0..<length (filter (\<lambda>d. last (path_parts d) \<noteq> ''__init__'') deps)]"
    using ls(2,3) by (intro nth_equalityI) (simp_all add: Let_def)
  with ls(1) show ?thesis
    by (simp add: render_imports_def)
qed

text \<open>The handler's output dependency list and map, in terms of the kept edges.\<close>

lemma handle_python_module_pin:
  "\<exists>twc rm'. handle_python_module order info ttype rm = Inr (twc, rm')
     \<and> rm' = snd (assign_many (renamed_keys (path (address info))
                                @ concat (map renamed_keys (inferred_deps order info))) rm)
     \<and> length (dependencies twc) = length (inferred_deps order info)
     \<and> (\<forall>i<length (inferred_deps order info).
           dependencies twc ! i = renamed_form (rmap rm') (inferred_deps order info ! i)
         \<and> set (renamed_keys (inferred_deps order info ! i)) \<subseteq> dom (rmap rm'))
     \<and> dependencies_raw twc = []
     \<and> (\<exists>ls. render_imports (dependencies twc) = Inr ls
             \<and> content twc = join [CHR 0x0A] (ls @ [[]]))"
proof -
  from handle_python_module_result [of info rm order ttype]
  obtain new_path rm1 renamed rm2 ls where h:
    "rename_python_module (path (address info)) rm = Inr (new_path, rm1)"
    "renamed_deps (inferred_deps order info) rm1 = Inr (renamed, rm2)"
    "render_imports renamed = Inr ls"
    "handle_python_module order info ttype rm =
        Inr (\<lparr>address = (address info)\<lparr>path := new_path\<rparr>,
              target_type = target_type info,
              dependencies = renamed,
              dependencies_raw = [],
              other = other info,
              content = join [CHR 0x0A] (ls @ [[]])\<rparr>, rm2)"
    by blast
  from rename_python_module_form(1) [OF h(1)]
  have rm1: "rm1 = snd (assign_many (renamed_keys (path (address info))) rm)" .
  from renamed_deps_pin [OF h(2)]
  have p: "rm2 = snd (assign_many (concat (map renamed_keys (inferred_deps order info))) rm1)"
    "length renamed = length (inferred_deps order info)"
    "\<forall>i<length (inferred_deps order info).
        renamed ! i = renamed_form (rmap rm2) (inferred_deps order info ! i)
      \<and> set (renamed_keys (inferred_deps order info ! i)) \<subseteq> dom (rmap rm2)"
    by blast+
  have rm2: "rm2 = snd (assign_many (renamed_keys (path (address info))
                                @ concat (map renamed_keys (inferred_deps order info))) rm)"
    using p(1) rm1 by (simp only: assign_many_append snd_conv)
  show ?thesis
    using h(3,4) rm2 p(2,3)
    by (intro exI [of _ rm2] exI [of _ "\<lparr>address = (address info)\<lparr>path := new_path\<rparr>,
              target_type = target_type info,
              dependencies = renamed,
              dependencies_raw = [],
              other = other info,
              content = join [CHR 0x0A] (ls @ [[]])\<rparr>"]) simp
qed

text \<open>
  C2 (as amended). Whatever order the set iteration takes, the edges kept for synthesis
  are exactly the dependency strings that are not raw dependency strings, each once.
  The output dependency list has one entry per kept edge, in that order, and nothing
  else: the renamed form of the edge under the map the handler leaves. That map is
  fixed by the map before the call and the generator: the components of the address
  path and of the kept edges that were not keys get, in the order of their first
  occurrence, the next names the generator returns, and no other entry changes. The
  raw dependency list of the output is empty. The content is the import lines of
  the output entries whose leaf is not \<open>__init__\<close>, each followed by a newline.
\<close>

theorem dependency_filtering:
  assumes "\<And>xs. distinct xs \<Longrightarrow> distinct (order xs) \<and> set (order xs) = set xs"
  shows "\<exists>kept twc rm'.
           handle_python_module order info ttype rm = Inr (twc, rm')
         \<and> kept = inferred_deps order info
         \<and> distinct kept
         \<and> set kept = set (dependencies info) - set (dependencies_raw info)
         \<and> length (dependencies twc) = length kept
         \<and> (\<forall>i<length kept.
               dependencies twc ! i = renamed_form (rmap rm') (kept ! i)
             \<and> set (renamed_keys (kept ! i)) \<subseteq> dom (rmap rm'))
         \<and> dependencies_raw twc = []
         \<and> (let new = first_seen (filter (\<lambda>k. rmap rm k = None)
                          (renamed_keys (path (address info)) @ concat (map renamed_keys kept)))
             in gen_name rm' = gen_name rm
              \<and> calls rm' = calls rm + length new
              \<and> (\<forall>i<length new. rmap rm' (new ! i) = Some (gen_name rm (calls rm + i)))
              \<and> (\<forall>k. k \<notin> set new \<longrightarrow> rmap rm' k = rmap rm k))
         \<and> content twc =
             join [CHR 0x0A]
               (map (\<lambda>i. let shown = filter (\<lambda>d. last (path_parts d) \<noteq> ''__init__'') (dependencies twc);
                              leaf = last (path_parts (shown ! i))
                          in import_line (join ''.'' (butlast (path_parts (shown ! i)))) leaf
                               (leaf @ str_of_nat
                                  (count_list (map (\<lambda>d. last (path_parts d)) (take (Suc i) shown)) leaf)))
                  [0..<length (filter (\<lambda>d. last (path_parts d) \<noteq> ''__init__'') (dependencies twc))]
                @ [[]])"
proof -
  let ?xs = "remdups (filter (\<lambda>d. d \<notin> set (dependencies_raw info)) (dependencies info))"
  let ?kept = "inferred_deps order info"
  let ?keys = "renamed_keys (path (address info)) @ concat (map renamed_keys ?kept)"
  have "distinct ?xs"
    by simp
  from assms [OF this] have k: "distinct ?kept"
    "set ?kept = set (dependencies info) - set (dependencies_raw info)"
    by (auto simp: inferred_deps_def)
  from handle_python_module_pin [of order info ttype rm]
  obtain twc rm' ls where h: "handle_python_module order info ttype rm = Inr (twc, rm')"
    "rm' = snd (assign_many ?keys rm)"
    "length (dependencies twc) = length ?kept"
    "\<forall>i<length ?kept.
           dependencies twc ! i = renamed_form (rmap rm') (?kept ! i)
         \<and> set (renamed_keys (?kept ! i)) \<subseteq> dom (rmap rm')"
    "dependencies_raw twc = []"
    "render_imports (dependencies twc) = Inr ls"
    "content twc = join [CHR 0x0A] (ls @ [[]])"
    by blast
  obtain vs where a: "assign_many ?keys rm = (vs, rm')"
    using h(2) by (cases "assign_many ?keys rm") simp
  note pin = assign_many_pin [OF a]
  from h(6) have ls: "ls = map (\<lambda>i. let shown = filter (\<lambda>d. last (path_parts d) \<noteq> ''__init__'') (dependencies twc);
                              leaf = last (path_parts (shown ! i))
                          in import_line (join ''.'' (butlast (path_parts (shown ! i)))) leaf
                               (leaf @ str_of_nat
                                  (count_list (map (\<lambda>d. last (path_parts d)) (take (Suc i) shown)) leaf)))
                  [0..<length (filter (\<lambda>d. last (path_parts d) \<noteq> ''__init__'') (dependencies twc))]"
    by (simp only: render_imports_lines sum.inject)
  show ?thesis
    unfolding Let_def
    using h(1,3,4,5) k pin h(7) [unfolded ls, unfolded Let_def]
    by (intro exI [of _ ?kept] exI [of _ twc] exI [of _ rm']) (simp add: set_first_seen)
qed

text \<open>C2 (as amended) at the sample target, with the set iterated in reverse order: of
  the dependencies \<open>a\<close>, \<open>b\<close>, \<open>c\<close> with \<open>a\<close> raw, the edges \<open>c\<close> and \<open>b\<close> are kept and
  renamed, and the content imports these two.\<close>

theorem dependency_filtering_witness:
  "\<exists>twc rm'.
       handle_python_module rev sample_info ''python_source'' (new_RenameMap sample_names) = Inr (twc, rm')
     \<and> dependencies twc = [''n2.py'', ''n3.py'']
     \<and> dependencies_raw twc = []
     \<and> content twc = ''import n2 as n21'' @ [CHR 0x0A] @ ''import n3 as n31'' @ [CHR 0x0A]"
proof -
  have o: "distinct xs \<Longrightarrow> distinct (rev xs) \<and> set (rev xs) = set xs" for xs :: "string list"
    by simp
  have k: "inferred_deps rev sample_info = [''c'', ''b'']"
    by (simp add: inferred_deps_def sample_info_def)
  have a: "path (address sample_info) = ''pkg/a.py''"
    by (simp add: sample_info_def)
  have p: "path_parts ''pkg/a.py'' = [''pkg'', ''a'']" "path_parts ''c'' = [''c'']"
    "path_parts ''b'' = [''b'']" "path_parts ''n2.py'' = [''n2'']" "path_parts ''n3.py'' = [''n3'']"
    by (simp_all add: path_parts_def removesuffix_def suffix_to_prefix)
  have rk: "renamed_keys ''pkg/a.py'' = [''pkg'', ''a'']" "renamed_keys ''c'' = [''c'']"
    "renamed_keys ''b'' = [''b'']"
    by (simp_all add: renamed_keys_def reserved_leaf_def p)
  have fs: "first_seen [''pkg'', ''a'', ''c'', ''b''] = [''pkg'', ''a'', ''c'', ''b'']"
    by (simp add: first_seen_def)
  have n: "sample_names (Suc (Suc 0)) = ''n2''" "sample_names (Suc (Suc (Suc 0))) = ''n3''"
    by (simp_all add: sample_names_def str_of_nat.simps digit_char_def)
  have e: "rmap (new_RenameMap sample_names) x = None" "calls (new_RenameMap sample_names) = 0"
    "gen_name (new_RenameMap sample_names) = sample_names" for x
    by (simp_all add: new_RenameMap_def)
  from dependency_filtering [of rev sample_info "''python_source''" "new_RenameMap sample_names", OF o]
  obtain twc rm' where h:
    "handle_python_module rev sample_info ''python_source'' (new_RenameMap sample_names) = Inr (twc, rm')"
    "length (dependencies twc) = length [''c'', ''b'']"
    "\<forall>i<length [''c'', ''b''].
        dependencies twc ! i = renamed_form (rmap rm') ([''c'', ''b''] ! i)
      \<and> set (renamed_keys ([''c'', ''b''] ! i)) \<subseteq> dom (rmap rm')"
    "dependencies_raw twc = []"
    "\<forall>i<length (first_seen (filter (\<lambda>k. rmap (new_RenameMap sample_names) k = None)
                          (renamed_keys (path (address sample_info)) @ concat (map renamed_keys [''c'', ''b''])))).
        rmap rm' (first_seen (filter (\<lambda>k. rmap (new_RenameMap sample_names) k = None)
                          (renamed_keys (path (address sample_info)) @ concat (map renamed_keys [''c'', ''b'']))) ! i)
          = Some (gen_name (new_RenameMap sample_names) (calls (new_RenameMap sample_names) + i))"
    "content twc =
             join [CHR 0x0A]
               (map (\<lambda>i. let shown = filter (\<lambda>d. last (path_parts d) \<noteq> ''__init__'') (dependencies twc);
                              leaf = last (path_parts (shown ! i))
                          in import_line (join ''.'' (butlast (path_parts (shown ! i)))) leaf
                               (leaf @ str_of_nat
                                  (count_list (map (\<lambda>d. last (path_parts d)) (take (Suc i) shown)) leaf)))
                  [0..<length (filter (\<lambda>d. last (path_parts d) \<noteq> ''__init__'') (dependencies twc))]
                @ [[]])"
    unfolding k Let_def by blast
  from h(5) have m: "rmap rm' ''c'' = Some ''n2''" "rmap rm' ''b'' = Some ''n3''"
    by (simp_all add: a rk e fs n All_less_Suc)
  from h(3) m have "dependencies twc ! 0 = ''n2.py''" "dependencies twc ! 1 = ''n3.py''"
    by (simp_all add: All_less_Suc renamed_form_def rk reserved_leaf_def p)
  with h(2) have d: "dependencies twc = [''n2.py'', ''n3.py'']"
    by (cases "dependencies twc"; cases "tl (dependencies twc)") auto
  have c: "content twc = ''import n2 as n21'' @ [CHR 0x0A] @ ''import n3 as n31'' @ [CHR 0x0A]"
    unfolding h(6) d
    by (simp add: p Let_def upt_rec [of 0] upt_rec [of "Suc 0"] import_line_def str_of_nat_1)
  from h(1,4) d c show ?thesis
    by blast
qed

text \<open>
  C2 (as stated, refuted). A raw edge need not be absent from the output. With the raw
  dependency \<open>pkg/b\<close> and the inferred dependency \<open>pkg/b.py\<close>, the one output entry and
  the one import line are those of the path that the raw edge itself renames to
  through the same map. With a generator that returns \<open>a\<close> and the raw dependency
  \<open>a.py\<close>, the output dependency list holds the raw string \<open>a.py\<close> itself.
\<close>

theorem raw_edge_in_output:
  "map_sum id (dependencies \<circ> fst)
     (handle_python_module rev sample_raw_twin ''python_source'' (new_RenameMap sample_names))
     = Inr [''n0/n2.py'']
   \<and> map_sum id (content \<circ> fst)
     (handle_python_module rev sample_raw_twin ''python_source'' (new_RenameMap sample_names))
     = Inr (''from n0 import n2 as n21'' @ [CHR 0x0A])
   \<and> dependencies_raw sample_raw_twin = [''pkg/b'']
   \<and> map_sum id fst
     (rename_python_module ''pkg/b''
        (snd (projr (handle_python_module rev sample_raw_twin ''python_source''
                       (new_RenameMap sample_names)))))
     = Inr ''n0/n2.py''
   \<and> map_sum id (dependencies \<circ> fst)
     (handle_python_module rev sample_raw_literal ''python_source'' (new_RenameMap constant_names))
     = Inr [''a.py'']
   \<and> dependencies_raw sample_raw_literal = [''a.py'']"
proof -
  have p: "path_parts ''pkg/a.py'' = [''pkg'', ''a'']" "path_parts ''pkg/b.py'' = [''pkg'', ''b'']"
    "path_parts ''pkg/b'' = [''pkg'', ''b'']" "path_parts ''n0/n2.py'' = [''n0'', ''n2'']"
    "path_parts ''b'' = [''b'']" "path_parts ''a.py'' = [''a'']"
    by (simp_all add: path_parts_def removesuffix_def suffix_to_prefix)
  have n: "sample_names 0 = ''n0''" "sample_names (Suc 0) = ''n1''"
    "sample_names (Suc (Suc 0)) = ''n2''"
    by (simp_all add: sample_names_def str_of_nat.simps digit_char_def)
  have h1: "handle_python_module rev sample_raw_twin ''python_source'' (new_RenameMap sample_names)
      = Inr (\<lparr>address = \<lparr>path = ''n0/n1.py'', name = [], subtarget = []\<rparr>,
              target_type = ''python_source'', dependencies = [''n0/n2.py''],
              dependencies_raw = [], other = (),
              content = ''from n0 import n2 as n21'' @ [CHR 0x0A]\<rparr>,
             \<lparr>gen_name = sample_names,
              rmap = [''pkg'' \<mapsto> ''n0'', ''a'' \<mapsto> ''n1'', ''b'' \<mapsto> ''n2''],
              calls = 3\<rparr>)"
    by (simp add: handle_python_module_def sample_raw_twin_def inferred_deps_def
        rename_python_module_def p new_RenameMap_def assign_name_def Let_def n
        render_imports_def import_line_def str_of_nat_1 numeral_3_eq_3)
  have r: "map_sum id fst (rename_python_module ''pkg/b''
             \<lparr>gen_name = sample_names,
              rmap = [''pkg'' \<mapsto> ''n0'', ''a'' \<mapsto> ''n1'', ''b'' \<mapsto> ''n2''],
              calls = 3\<rparr>) = Inr ''n0/n2.py''"
    by (simp add: rename_python_module_def p assign_name_def Let_def)
  have h2: "map_sum id (dependencies \<circ> fst)
     (handle_python_module rev sample_raw_literal ''python_source'' (new_RenameMap constant_names))
     = Inr [''a.py'']"
    by (simp add: handle_python_module_def sample_raw_literal_def inferred_deps_def
        rename_python_module_def p new_RenameMap_def assign_name_def Let_def constant_names_def
        render_imports_def import_line_def str_of_nat_1)
  from h1 r h2 show ?thesis
    by (simp add: sample_raw_twin_def sample_raw_literal_def)
qed

end
